theory Spec2Isabelle
  imports Complex_Main "HOL-Library.AList"
begin

section \<open>Python values shared by the models\<close>

text \<open>
  The repository's only source file is the notebook
  \<^verbatim>\<open>tutorials/3_testing_and_noise_models.ipynb\<close>. It defines \<^verbatim>\<open>full_loop\<close>,
  \<^verbatim>\<open>stabilize\<close> and \<^verbatim>\<open>get_stabilized_circ\<close>, and it calls the methods of
  \<^verbatim>\<open>GraphDecoder\<close> and \<^verbatim>\<open>SurfaceCodeBenchmarkingTool\<close>, whose code lives in
  the package \<^verbatim>\<open>surface_code\<close> and is not part of the sources at hand.

  Exceptions are values: a computation returns \<open>error + 'a\<close>, with \<open>Inl\<close> for a raise.
\<close>

datatype error =
    KeyError
  | IndexError
  | ValueError
  | ZeroDivisionError
  | CircuitError
  | Raised string

text \<open>
  A Python \<^verbatim>\<open>dict\<close> is an association list in insertion order;
  \<^verbatim>\<open>d[k] = v\<close> is \<open>AList.update k v d\<close> and \<^verbatim>\<open>d[k]\<close> raises \<^verbatim>\<open>KeyError\<close>
  on a missing key.
\<close>

definition getitem :: "(string \<times> 'v) list \<Rightarrow> string \<Rightarrow> error + 'v" where
  "getitem d k = (case map_of d k of None \<Rightarrow> Inl KeyError | Some v \<Rightarrow> Inr v)"

text \<open>
  Code with effects is a step on a state: it returns the state it leaves behind, with
  the value or the exception that ended it. What was written before a raise stays
  written.
\<close>

type_synonym ('s, 'a) step = "'s \<Rightarrow> 's \<times> (error + 'a)"

definition done_with :: "error + 'a \<Rightarrow> ('s, 'a) step" where
  "done_with r s = (s, r)"

definition and_then :: "('s, 'a) step \<Rightarrow> ('a \<Rightarrow> ('s, 'b) step) \<Rightarrow> ('s, 'b) step" where
  "and_then m f s =
     (case m s of
        (s', Inl e) \<Rightarrow> (s', Inl e)
      | (s', Inr v) \<Rightarrow> f v s')"

text \<open>\<^verbatim>\<open>for x in xs: body(x)\<close>, stopping at the first exception.\<close>

fun each_do :: "('x \<Rightarrow> ('s, unit) step) \<Rightarrow> 'x list \<Rightarrow> ('s, unit) step" where
  "each_do body [] = done_with (Inr ())"
| "each_do body (x # xs) = and_then (body x) (\<lambda>_. each_do body xs)"

text \<open>
  A qubit flip map is the dict that \<^verbatim>\<open>calculate_qubit_flips\<close> returns: physical qubit to
  parity bit, \<open>True\<close> for 1 (flip).
\<close>

type_synonym 'q flip_map = "('q \<times> bool) list"

section \<open>The test harness \<^verbatim>\<open>full_loop\<close>\<close>

text \<open>
  The decoder objects are arguments of \<^verbatim>\<open>full_loop\<close>; their class is not in the
  sources, so a decoder is the record of its methods, each of which may raise.
  The type \<open>'r\<close> is what \<^verbatim>\<open>make_error_graph\<close> returns: the analytic branch unpacks
  it as a pair \<^verbatim>\<open>error_graph, paths\<close>, the simulated branch takes it as the graph.
\<close>

record ('d, 'r, 'g, 'm, 'p, 'q, 'c) decoder =
  make_error_graph :: "'d list \<Rightarrow> string \<Rightarrow> error + 'r"
  matching_graph :: "'g \<Rightarrow> string \<Rightarrow> error + 'g"
  matching :: "'g \<Rightarrow> string \<Rightarrow> error + 'm"
  analytic_paths :: "'m \<Rightarrow> string \<Rightarrow> error + 'p"
  calculate_qubit_flips :: "'m \<Rightarrow> 'p \<Rightarrow> string \<Rightarrow> error + 'q flip_map"
  net_qubit_flips :: "'q flip_map \<Rightarrow> 'q flip_map \<Rightarrow> error + 'c"

text \<open>
  Which decoder methods an execution calls, and which of them raises, is part of its
  behaviour, so the state of the harness is the trace of the calls made so far: each
  call with its error type and with its outcome. The call of \<^verbatim>\<open>net_qubit_flips\<close>
  takes its two arguments from the dict \<^verbatim>\<open>flips\<close>, and is recorded with that dict
  as it is at the call.
\<close>

datatype 'q call =
    MakeErrorGraph string
  | MatchingGraph string
  | Matching string
  | AnalyticPaths string
  | CalculateQubitFlips string
  | NetQubitFlips "(string \<times> 'q flip_map) list"

datatype outcome = Returns | Raises error

type_synonym 'q event = "'q call \<times> outcome"

type_synonym ('q, 'a) run = "('q event list, 'a) step"

definition outcome_of :: "error + 'a \<Rightarrow> outcome" where
  "outcome_of r = (case r of Inl e \<Rightarrow> Raises e | Inr v \<Rightarrow> Returns)"

definition invoke :: "'q call \<Rightarrow> error + 'a \<Rightarrow> ('q, 'a) run" where
  "invoke c r tr = (tr @ [(c, outcome_of r)], r)"

text \<open>
  The body of the first loop (notebook lines 99 to 105), for one \<^verbatim>\<open>error_key\<close>:
  \<^verbatim>\<open>if errors:\<close> is true exactly for a non-empty list.
\<close>

definition analytic_body ::
  "('d, 'g \<times> 'p, 'g, 'm, 'p, 'q, 'c) decoder \<Rightarrow> string \<Rightarrow> 'd list \<Rightarrow> ('q, 'q flip_map) run" where
  "analytic_body decoder_analytic error_key errors =
     (if errors \<noteq> [] then
        and_then (invoke (MakeErrorGraph error_key)
                    (make_error_graph decoder_analytic errors error_key))
          (\<lambda>(error_graph, paths).
        and_then (invoke (MatchingGraph error_key)
                    (matching_graph decoder_analytic error_graph error_key))
          (\<lambda>matching_graph'.
        and_then (invoke (Matching error_key)
                    (matching decoder_analytic matching_graph' error_key))
          (\<lambda>matches.
        invoke (CalculateQubitFlips error_key)
          (calculate_qubit_flips decoder_analytic matches paths error_key))))
      else done_with (Inr []))"

text \<open>The body of the second loop (notebook lines 114 to 121).\<close>

definition simulated_body ::
  "('d, 'g, 'g, 'm, 'p, 'q, 'c) decoder \<Rightarrow> string \<Rightarrow> 'd list \<Rightarrow> ('q, 'q flip_map) run" where
  "simulated_body decoder_simulated error_key errors =
     (if errors \<noteq> [] then
        and_then (invoke (MakeErrorGraph error_key)
                    (make_error_graph decoder_simulated errors error_key))
          (\<lambda>error_graph.
        and_then (invoke (MatchingGraph error_key)
                    (matching_graph decoder_simulated error_graph error_key))
          (\<lambda>matching_graph'.
        and_then (invoke (Matching error_key)
                    (matching decoder_simulated matching_graph' error_key))
          (\<lambda>matches.
        and_then (invoke (AnalyticPaths error_key)
                    (analytic_paths decoder_simulated matches error_key))
          (\<lambda>paths.
        invoke (CalculateQubitFlips error_key)
          (calculate_qubit_flips decoder_simulated matches paths error_key)))))
      else done_with (Inr []))"

text \<open>
  \<^verbatim>\<open>for error_key, errors in d.items(): ... flips[error_key] = ...\<close>, the dict
  \<^verbatim>\<open>flips\<close> being the loop's state.
\<close>

fun for_items ::
  "(string \<Rightarrow> 'd list \<Rightarrow> ('q, 'f) run) \<Rightarrow> (string \<times> 'd list) list \<Rightarrow> (string \<times> 'f) list
     \<Rightarrow> ('q, (string \<times> 'f) list) run" where
  "for_items body [] flips = done_with (Inr flips)"
| "for_items body ((error_key, errors) # rest) flips =
     and_then (body error_key errors)
       (\<lambda>f. for_items body rest (AList.update error_key f flips))"

text \<open>
  \<^verbatim>\<open>dict(zip(("X", "Z"), (X_errors, Z_errors)))\<close> has the two items in this order.
  Each loop starts from \<^verbatim>\<open>flips = {}\<close>.
\<close>

definition error_items :: "'d list \<Rightarrow> 'd list \<Rightarrow> (string \<times> 'd list) list" where
  "error_items X_errors Z_errors = [(''X'', X_errors), (''Z'', Z_errors)]"

definition analytic_flips ::
  "('d, 'g \<times> 'p, 'g, 'm, 'p, 'q, 'c) decoder \<Rightarrow> 'd list \<Rightarrow> 'd list
     \<Rightarrow> ('q, (string \<times> 'q flip_map) list) run" where
  "analytic_flips decoder_analytic X_errors Z_errors =
     for_items (analytic_body decoder_analytic) (error_items X_errors Z_errors) []"

definition simulated_flips ::
  "('d, 'g, 'g, 'm, 'p, 'q, 'c) decoder \<Rightarrow> 'd list \<Rightarrow> 'd list
     \<Rightarrow> ('q, (string \<times> 'q flip_map) list) run" where
  "simulated_flips decoder_simulated X_errors Z_errors =
     for_items (simulated_body decoder_simulated) (error_items X_errors Z_errors) []"

text \<open>
  \<^verbatim>\<open>print(decoder.net_qubit_flips(flips["X"], flips["Z"]))\<close>: the value printed. The
  two subscripts are evaluated first, and either raises \<^verbatim>\<open>KeyError\<close> before any
  call when its key is missing.
\<close>

definition print_net ::
  "('d, 'r, 'g, 'm, 'p, 'q, 'c) decoder \<Rightarrow> (string \<times> 'q flip_map) list \<Rightarrow> ('q, 'c) run" where
  "print_net dec flips =
     and_then (done_with (getitem flips ''X'')) (\<lambda>flips_x.
     and_then (done_with (getitem flips ''Z'')) (\<lambda>flips_z.
     invoke (NetQubitFlips flips) (net_qubit_flips dec flips_x flips_z)))"

text \<open>
  \<^verbatim>\<open>full_loop\<close> after the extraction of \<^verbatim>\<open>X_errors, Z_errors\<close> (the circuit
  execution and \<^verbatim>\<open>code.extract_nodes\<close> are not in the sources): the analytic
  decoder's loop and print, then the simulated decoder's. The result is the pair of
  printed corrections.
\<close>

definition full_loop ::
  "('d, 'g, 'g, 'm, 'p, 'q, 'c) decoder \<Rightarrow> ('d, 'g \<times> 'p, 'g, 'm, 'p, 'q, 'c) decoder
     \<Rightarrow> 'd list \<Rightarrow> 'd list \<Rightarrow> ('q, 'c \<times> 'c) run" where
  "full_loop decoder_simulated decoder_analytic X_errors Z_errors =
     and_then (analytic_flips decoder_analytic X_errors Z_errors) (\<lambda>flips.
     and_then (print_net decoder_analytic flips) (\<lambda>printed_analytic.
     and_then (simulated_flips decoder_simulated X_errors Z_errors) (\<lambda>flips'.
     and_then (print_net decoder_simulated flips') (\<lambda>printed_simulated.
     done_with (Inr (printed_analytic, printed_simulated))))))"

text \<open>The events of a trace that are calls of \<^verbatim>\<open>net_qubit_flips\<close>.\<close>

fun is_net :: "'q event \<Rightarrow> bool" where
  "is_net (NetQubitFlips flips, out) = True"
| "is_net (c, out) = False"

text \<open>
  A step of the harness is tidy when it calls decoder methods other than
  \<^verbatim>\<open>net_qubit_flips\<close> only, and an exception that ends it is the one raised by the
  call it made last.
\<close>

definition tidy :: "('q, 'a) run \<Rightarrow> bool" where
  "tidy m \<longleftrightarrow>
     (\<forall>t t' r. m t = (t', r) \<longrightarrow>
        (\<exists>new. t' = t @ new \<and> filter is_net new = []
           \<and> (\<forall>e. r = Inl e \<longrightarrow> new \<noteq> [] \<and> snd (last new) = Raises e)))"

section \<open>The stabilized circuit\<close>

text \<open>
  The notebook builds its circuit with qiskit's \<^verbatim>\<open>QuantumCircuit\<close>. A register is
  its name and size, a bit is a register and an index, and a circuit is its registers
  and the list of instructions appended so far.
\<close>

type_synonym register = "string \<times> nat"

datatype qubit = Qubit register nat
datatype clbit = Clbit register nat

datatype instruction =
    H qubit
  | CX qubit qubit
  | Barrier "qubit list"
  | Measure qubit clbit
  | Reset qubit

record circuit =
  qregs :: "register list"
  cregs :: "register list"
  instructions :: "instruction list"

text \<open>
  Circuits are mutable objects and \<^verbatim>\<open>base_circuit.copy()\<close> makes a new one, so a
  circuit variable holds a reference: an index into the store of the circuits allocated
  so far.
\<close>

type_synonym store = "circuit list"

text \<open>The notebook's globals (lines 229 to 237), with \<^verbatim>\<open>rounds = 2\<close>.\<close>

definition data :: register where "data = (''data'', 9)"
definition mx :: register where "mx = (''mx'', 4)"
definition mz :: register where "mz = (''mz'', 4)"
definition rounds :: int where "rounds = 2"
definition logical :: register where "logical = (''logical'', 1)"

text \<open>
  \<^verbatim>\<open>[ClassicalRegister(8, name="c{}".format(i+1)) for i in range(rounds + 1)]\<close>
\<close>

definition measurements :: "register list" where
  "measurements = [(''c1'', 8), (''c2'', 8), (''c3'', 8)]"

text \<open>\<^verbatim>\<open>QuantumCircuit(data, mz, mx, *measurements, logical)\<close>\<close>

definition base_circ :: circuit where
  "base_circ = \<lparr> qregs = [data, mz, mx, logical], cregs = measurements, instructions = [] \<rparr>"

text \<open>The bits of a register, and the slice \<^verbatim>\<open>reg[a:b]\<close> of a classical one.\<close>

definition qubits_of :: "register \<Rightarrow> qubit list" where
  "qubits_of reg = map (Qubit reg) [0 ..< snd reg]"

definition slice :: "register \<Rightarrow> nat \<Rightarrow> nat \<Rightarrow> clbit list" where
  "slice reg a b = map (Clbit reg) [a ..< min b (snd reg)]"

text \<open>\<^verbatim>\<open>xs[i]\<close> for \<open>i \<ge> 0\<close>: an index past the end raises \<^verbatim>\<open>IndexError\<close>.\<close>

definition index :: "'a list \<Rightarrow> nat \<Rightarrow> error + 'a" where
  "index xs i = (if i < length xs then Inr (xs ! i) else Inl IndexError)"

text \<open>
  qiskit appends an instruction only when the circuit has the registers of its bits, and
  raises \<^verbatim>\<open>CircuitError\<close> otherwise, as it does for a gate given the same qubit
  twice.
\<close>

fun has_qubit :: "circuit \<Rightarrow> qubit \<Rightarrow> bool" where
  "has_qubit c (Qubit reg i) = (reg \<in> set (qregs c) \<and> i < snd reg)"

fun has_clbit :: "circuit \<Rightarrow> clbit \<Rightarrow> bool" where
  "has_clbit c (Clbit reg i) = (reg \<in> set (cregs c) \<and> i < snd reg)"

fun accepts :: "circuit \<Rightarrow> instruction \<Rightarrow> bool" where
  "accepts c (H q) = has_qubit c q"
| "accepts c (CX q t) = (has_qubit c q \<and> has_qubit c t \<and> q \<noteq> t)"
| "accepts c (Barrier qs) = list_all (has_qubit c) qs"
| "accepts c (Measure q b) = (has_qubit c q \<and> has_clbit c b)"
| "accepts c (Reset q) = has_qubit c q"

definition append_c :: "nat \<Rightarrow> instruction \<Rightarrow> (store, unit) step" where
  "append_c circ ins s =
     (if circ < length s \<and> accepts (s ! circ) ins
      then (s[circ := (s ! circ)\<lparr>instructions := instructions (s ! circ) @ [ins]\<rparr>], Inr ())
      else (s, Inl CircuitError))"

text \<open>
  The circuit methods the notebook calls. \<^verbatim>\<open>barrier()\<close> without arguments spans
  all qubits of the circuit; \<^verbatim>\<open>measure\<close> (here \<open>measure_c\<close>) and \<^verbatim>\<open>reset\<close>
  on registers act bit by bit. \<open>append_c\<close> is \<^verbatim>\<open>QuantumCircuit.append\<close>.
\<close>

definition h :: "nat \<Rightarrow> qubit \<Rightarrow> (store, unit) step" where
  "h circ q = append_c circ (H q)"

definition cx :: "nat \<Rightarrow> qubit \<Rightarrow> qubit \<Rightarrow> (store, unit) step" where
  "cx circ q t = append_c circ (CX q t)"

definition barrier :: "nat \<Rightarrow> (store, unit) step" where
  "barrier circ s =
     (if circ < length s
      then append_c circ (Barrier (concat (map qubits_of (qregs (s ! circ))))) s
      else (s, Inl CircuitError))"

definition measure_c :: "nat \<Rightarrow> qubit list \<Rightarrow> clbit list \<Rightarrow> (store, unit) step" where
  "measure_c circ qs bs =
     (if length qs = length bs
      then each_do (\<lambda>(q, b). append_c circ (Measure q b)) (zip qs bs)
      else done_with (Inl CircuitError))"

definition reset :: "nat \<Rightarrow> qubit list \<Rightarrow> (store, unit) step" where
  "reset circ qs = each_do (\<lambda>q. append_c circ (Reset q)) qs"

text \<open>
  \<^verbatim>\<open>QuantumCircuit.copy\<close> allocates a new circuit with the registers and
  instructions of the old one. A reference past the end of the store names no object.
\<close>

definition copy :: "nat \<Rightarrow> (store, nat) step" where
  "copy circ s =
     (if circ < length s then (s @ [s ! circ], Inr (length s)) else (s, Inl ValueError))"

text \<open>A block of statements, run in order.\<close>

definition block :: "('s, unit) step list \<Rightarrow> ('s, unit) step" where
  "block steps = each_do (\<lambda>step. step) steps"

text \<open>\<^verbatim>\<open>stabilize(circ, i)\<close>, notebook lines 239 to 285.\<close>

definition stabilize :: "nat \<Rightarrow> nat \<Rightarrow> (store, unit) step" where
  "stabilize circ i = block [
     h circ (Qubit mx 0),
     cx circ (Qubit mx 0) (Qubit data 1),
     cx circ (Qubit mx 0) (Qubit data 0),
     cx circ (Qubit data 1) (Qubit mz 0),
     cx circ (Qubit data 0) (Qubit mz 0),
     cx circ (Qubit data 4) (Qubit mz 0),
     cx circ (Qubit data 3) (Qubit mz 0),
     h circ (Qubit mx 0),

     h circ (Qubit mx 1),
     cx circ (Qubit mx 1) (Qubit data 2),
     cx circ (Qubit mx 1) (Qubit data 1),
     cx circ (Qubit mx 1) (Qubit data 5),
     cx circ (Qubit mx 1) (Qubit data 4),
     cx circ (Qubit data 2) (Qubit mz 1),
     cx circ (Qubit data 5) (Qubit mz 1),
     h circ (Qubit mx 1),

     h circ (Qubit mx 2),
     cx circ (Qubit data 3) (Qubit mz 2),
     cx circ (Qubit data 6) (Qubit mz 2),
     cx circ (Qubit mx 2) (Qubit data 4),
     cx circ (Qubit mx 2) (Qubit data 3),
     cx circ (Qubit mx 2) (Qubit data 7),
     cx circ (Qubit mx 2) (Qubit data 6),
     h circ (Qubit mx 2),

     h circ (Qubit mx 3),
     cx circ (Qubit mx 3) (Qubit data 8),
     cx circ (Qubit mx 3) (Qubit data 7),
     cx circ (Qubit data 5) (Qubit mz 3),
     cx circ (Qubit data 4) (Qubit mz 3),
     cx circ (Qubit data 8) (Qubit mz 3),
     cx circ (Qubit data 7) (Qubit mz 3),
     h circ (Qubit mx 3),
     barrier circ,

     and_then (done_with (index measurements i)) (\<lambda>c. measure_c circ (qubits_of mz) (slice c 0 4)),
     and_then (done_with (index measurements i)) (\<lambda>c. measure_c circ (qubits_of mx) (slice c 4 8)),
     reset circ (qubits_of mz),
     reset circ (qubits_of mx),
     barrier circ ]"

text \<open>
  \<^verbatim>\<open>get_stabilized_circ(base_circuit, rounds)\<close>, notebook lines 287 to 291. The
  argument is a Python int; \<^verbatim>\<open>range(rounds + 1)\<close> is empty when it is negative.
\<close>

definition get_stabilized_circ :: "nat \<Rightarrow> int \<Rightarrow> (store, nat) step" where
  "get_stabilized_circ base_circuit rounds' =
     and_then (copy base_circuit) (\<lambda>circ.
     and_then (each_do (stabilize circ) [0 ..< nat (rounds' + 1)]) (\<lambda>_.
     done_with (Inr circ)))"

text \<open>
  What one call of \<^verbatim>\<open>stabilize(circ, i)\<close> appends to a circuit \<open>c\<close> when nothing
  raises: the gates, a barrier, the two measurements into \<^verbatim>\<open>measurements[i]\<close>, the
  resets and a barrier.
\<close>

definition stabilizer_gates :: "instruction list" where
  "stabilizer_gates = [
     H (Qubit mx 0),
     CX (Qubit mx 0) (Qubit data 1),
     CX (Qubit mx 0) (Qubit data 0),
     CX (Qubit data 1) (Qubit mz 0),
     CX (Qubit data 0) (Qubit mz 0),
     CX (Qubit data 4) (Qubit mz 0),
     CX (Qubit data 3) (Qubit mz 0),
     H (Qubit mx 0),
     H (Qubit mx 1),
     CX (Qubit mx 1) (Qubit data 2),
     CX (Qubit mx 1) (Qubit data 1),
     CX (Qubit mx 1) (Qubit data 5),
     CX (Qubit mx 1) (Qubit data 4),
     CX (Qubit data 2) (Qubit mz 1),
     CX (Qubit data 5) (Qubit mz 1),
     H (Qubit mx 1),
     H (Qubit mx 2),
     CX (Qubit data 3) (Qubit mz 2),
     CX (Qubit data 6) (Qubit mz 2),
     CX (Qubit mx 2) (Qubit data 4),
     CX (Qubit mx 2) (Qubit data 3),
     CX (Qubit mx 2) (Qubit data 7),
     CX (Qubit mx 2) (Qubit data 6),
     H (Qubit mx 2),
     H (Qubit mx 3),
     CX (Qubit mx 3) (Qubit data 8),
     CX (Qubit mx 3) (Qubit data 7),
     CX (Qubit data 5) (Qubit mz 3),
     CX (Qubit data 4) (Qubit mz 3),
     CX (Qubit data 8) (Qubit mz 3),
     CX (Qubit data 7) (Qubit mz 3),
     H (Qubit mx 3) ]"

definition stabilization_round :: "circuit \<Rightarrow> nat \<Rightarrow> instruction list" where
  "stabilization_round c i =
     stabilizer_gates
     @ [Barrier (concat (map qubits_of (qregs c)))]
     @ map (\<lambda>(q, b). Measure q b) (zip (qubits_of mz) (slice (measurements ! i) 0 4))
     @ map (\<lambda>(q, b). Measure q b) (zip (qubits_of mx) (slice (measurements ! i) 4 8))
     @ map Reset (qubits_of mz)
     @ map Reset (qubits_of mx)
     @ [Barrier (concat (map qubits_of (qregs c)))]"

text \<open>The base circuits the notebook's \<^verbatim>\<open>stabilize\<close> can run on.\<close>

definition has_registers :: "circuit \<Rightarrow> bool" where
  "has_registers c \<longleftrightarrow>
     data \<in> set (qregs c) \<and> mx \<in> set (qregs c) \<and> mz \<in> set (qregs c)
     \<and> set measurements \<subseteq> set (cregs c)"

text \<open>A circuit with more instructions appended.\<close>

definition add_all :: "circuit \<Rightarrow> instruction list \<Rightarrow> circuit" where
  "add_all c xs = c\<lparr>instructions := instructions c @ xs\<rparr>"

text \<open>A step is local to a circuit when it changes no other object of the store.\<close>

definition local_to :: "nat \<Rightarrow> (store, 'a) step \<Rightarrow> bool" where
  "local_to circ step \<longleftrightarrow>
     (\<forall>s s' r. step s = (s', r) \<longrightarrow> length s' = length s \<and> (\<forall>j. j \<noteq> circ \<longrightarrow> s' ! j = s ! j))"

section \<open>The flip calculator\<close>

text \<open>
  \<^verbatim>\<open>GraphDecoder.calculate_qubit_flips\<close> is called by the notebook and defined in
  the package \<^verbatim>\<open>surface_code\<close>, which is not in the sources. The spec (4.5) gives
  its contract: input, the matches and chains for one error type; output, a qubit flip
  map; XOR-accumulate chain qubits across all matched pairs.
\<close>

text \<open>
  Modelled from the spec: one touch of a qubit by a chain, missing from the sources with
  \<^verbatim>\<open>calculate_qubit_flips\<close>. The parity bit of the qubit is XORed with 1; a qubit not
  yet in the map counts as 0.
\<close>

definition flip :: "'q \<Rightarrow> 'q flip_map \<Rightarrow> 'q flip_map" where
  "flip q flips =
     AList.update q (case map_of flips q of None \<Rightarrow> True | Some b \<Rightarrow> \<not> b) flips"

text \<open>
  Modelled from the spec: the accumulation of one chain, missing from the sources with
  \<^verbatim>\<open>calculate_qubit_flips\<close>.
\<close>

definition apply_chain :: "'q list \<Rightarrow> 'q flip_map \<Rightarrow> 'q flip_map" where
  "apply_chain chain flips = fold flip chain flips"

text \<open>
  Modelled from the spec: the loop of \<^verbatim>\<open>calculate_qubit_flips\<close> over the matched
  pairs, missing from the sources. The chains are the dict \<^verbatim>\<open>paths\<close>, keyed by
  matched pair; a pair without a chain is a \<^verbatim>\<open>KeyError\<close>.
\<close>

fun accumulate_flips ::
  "('n \<times> 'n) list \<Rightarrow> (('n \<times> 'n) \<times> 'q list) list \<Rightarrow> 'q flip_map \<Rightarrow> error + 'q flip_map" where
  "accumulate_flips [] paths flips = Inr flips"
| "accumulate_flips (pair # matches) paths flips =
     (case map_of paths pair of
        None \<Rightarrow> Inl KeyError
      | Some chain \<Rightarrow> accumulate_flips matches paths (apply_chain chain flips))"

text \<open>
  Modelled from the spec: \<^verbatim>\<open>GraphDecoder.calculate_qubit_flips\<close>, missing from the
  sources. The accumulation starts from the empty flip map.
\<close>

definition calculate_qubit_flips_spec ::
  "('n \<times> 'n) list \<Rightarrow> (('n \<times> 'n) \<times> 'q list) list \<Rightarrow> error + 'q flip_map" where
  "calculate_qubit_flips_spec matches paths = accumulate_flips matches paths []"

text \<open>A qubit is flipped when its parity bit is 1.\<close>

definition flipped :: "'q flip_map \<Rightarrow> 'q \<Rightarrow> bool" where
  "flipped flips q = (map_of flips q = Some True)"

text \<open>How many times the chains of the matched pairs touch a qubit.\<close>

definition touches :: "('n \<times> 'n) list \<Rightarrow> (('n \<times> 'n) \<times> 'q list) list \<Rightarrow> 'q \<Rightarrow> nat" where
  "touches matches paths q =
     sum_list (map (\<lambda>pair. case map_of paths pair of
                               None \<Rightarrow> 0
                             | Some chain \<Rightarrow> count_list chain q) matches)"

section \<open>The benchmarking tool\<close>

text \<open>
  \<^verbatim>\<open>SurfaceCodeBenchmarkingTool.logical_error_rate\<close> is called by the notebook (lines
  218 and 362) and defined in the package \<^verbatim>\<open>surface_code\<close>, which is not in the
  sources. The spec (4.6) gives its contract: for each distinct outcome string, run the
  pipeline once, apply the correction to the raw logical readout bit and compare it to
  the expected value; accumulate the counts of mismatches, weighted by each outcome's
  occurrence count; divide by total shots. A failing sample aborts the batch (7).
\<close>

text \<open>
  Modelled from the spec: the weighted count of mismatches, missing from the sources with
  \<^verbatim>\<open>logical_error_rate\<close>. The histogram is the dict of outcome string to
  non-negative count, and \<open>corrected\<close> stands for the pipeline: the corrected logical
  value of an outcome, or its failure.
\<close>

fun count_mismatches :: "(string \<Rightarrow> error + int) \<Rightarrow> int \<Rightarrow> (string \<times> nat) list \<Rightarrow> error + nat" where
  "count_mismatches corrected expected [] = Inr 0"
| "count_mismatches corrected expected ((outcome, count) # rest) =
     (case corrected outcome of
        Inl e \<Rightarrow> Inl e
      | Inr v \<Rightarrow>
          (case count_mismatches corrected expected rest of
             Inl e \<Rightarrow> Inl e
           | Inr n \<Rightarrow> Inr ((if v \<noteq> expected then count else 0) + n)))"

text \<open>
  Modelled from the spec: the total shot count, the sum of the counts (6), missing from
  the sources with \<^verbatim>\<open>logical_error_rate\<close>.
\<close>

definition total_shots :: "(string \<times> nat) list \<Rightarrow> nat" where
  "total_shots histogram = sum_list (map snd histogram)"

text \<open>
  Modelled from the spec: \<^verbatim>\<open>SurfaceCodeBenchmarkingTool.logical_error_rate\<close>, missing
  from the sources. The quotient is exact, where Python rounds it to a float; with no
  shots the division raises.
\<close>

definition logical_error_rate_spec ::
  "(string \<Rightarrow> error + int) \<Rightarrow> (string \<times> nat) list \<Rightarrow> int \<Rightarrow> error + rat" where
  "logical_error_rate_spec corrected histogram expected =
     (case count_mismatches corrected expected histogram of
        Inl e \<Rightarrow> Inl e
      | Inr n \<Rightarrow>
          if total_shots histogram = 0 then Inl ZeroDivisionError
          else Inr (of_nat n / of_nat (total_shots histogram)))"

text \<open>
  A pipeline to run the model on: it reads the logical readout, the first character of
  the outcome string, and corrects nothing.
\<close>

fun raw_readout :: "string \<Rightarrow> error + int" where
  "raw_readout [] = Inl ValueError"
| "raw_readout (c # cs) =
     (if c = CHR ''0'' then Inr 0 else if c = CHR ''1'' then Inr 1 else Inl ValueError)"

section \<open>A decoder on a line of qubits\<close>

text \<open>
  A small concrete decoder, to run the harness on: defects are positions on a line,
  the chain between two defects is the qubits between them, and consecutive defects are
  matched. The analytic variant returns its chains with the graph; the simulated one
  returns the graph alone and rebuilds the chains in \<^verbatim>\<open>analytic_paths\<close>. Its
  flips are accumulated as in the flip calculator above.
\<close>

definition chain_between :: "nat \<Rightarrow> nat \<Rightarrow> nat list" where
  "chain_between a b = [min a b ..< max a b]"

fun pair_up :: "nat list \<Rightarrow> (nat \<times> nat) list" where
  "pair_up (a # b # rest) = (a, b) # pair_up rest"
| "pair_up rest = []"

definition line_paths :: "(nat \<times> nat) list \<Rightarrow> ((nat \<times> nat) \<times> nat list) list" where
  "line_paths pairs = map (\<lambda>(a, b). ((a, b), chain_between a b)) pairs"

definition line_merge :: "nat flip_map \<Rightarrow> nat flip_map \<Rightarrow> (nat \<times> string) list" where
  "line_merge flips_x flips_z =
     map (\<lambda>(q, b). (q, if flipped flips_z q then ''Y'' else ''X'')) (filter snd flips_x)
     @ map (\<lambda>(q, b). (q, ''Z'')) (filter (\<lambda>(q, b). b \<and> \<not> flipped flips_x q) flips_z)"

definition line_matching :: "nat list \<Rightarrow> error + (nat \<times> nat) list" where
  "line_matching g =
     (if even (length g) then Inr (pair_up g) else Inl (Raised ''no perfect matching''))"

definition line_analytic ::
  "(nat, nat list \<times> ((nat \<times> nat) \<times> nat list) list, nat list, (nat \<times> nat) list,
    ((nat \<times> nat) \<times> nat list) list, nat, (nat \<times> string) list) decoder" where
  "line_analytic =
     \<lparr> make_error_graph = (\<lambda>errors k. Inr (errors, line_paths (List.product errors errors))),
       matching_graph = (\<lambda>g k. Inr g),
       matching = (\<lambda>g k. line_matching g),
       analytic_paths = (\<lambda>m k. Inr (line_paths m)),
       calculate_qubit_flips = (\<lambda>m p k. calculate_qubit_flips_spec m p),
       net_qubit_flips = (\<lambda>flips_x flips_z. Inr (line_merge flips_x flips_z)) \<rparr>"

definition line_simulated ::
  "(nat, nat list, nat list, (nat \<times> nat) list,
    ((nat \<times> nat) \<times> nat list) list, nat, (nat \<times> string) list) decoder" where
  "line_simulated =
     \<lparr> make_error_graph = (\<lambda>errors k. Inr errors),
       matching_graph = (\<lambda>g k. Inr g),
       matching = (\<lambda>g k. line_matching g),
       analytic_paths = (\<lambda>m k. Inr (line_paths m)),
       calculate_qubit_flips = (\<lambda>m p k. calculate_qubit_flips_spec m p),
       net_qubit_flips = (\<lambda>flips_x flips_z. Inr (line_merge flips_x flips_z)) \<rparr>"

section \<open>Properties of the harness\<close>

lemma tidy_done_with: "tidy (done_with (Inr v))"
  by (simp add: tidy_def done_with_def)

lemma tidy_invoke: "\<not> is_net (c, outcome_of r) \<Longrightarrow> tidy (invoke c r)"
  by (auto simp: tidy_def invoke_def outcome_of_def)

lemma tidyD:
  assumes "tidy m" and "m t = (t', r)"
  shows "\<exists>new. t' = t @ new \<and> filter is_net new = []
           \<and> (\<forall>e. r = Inl e \<longrightarrow> new \<noteq> [] \<and> snd (last new) = Raises e)"
  using assms(1) [unfolded tidy_def, rule_format, OF assms(2)] .

lemma tidy_and_then:
  assumes m: "tidy m" and f: "\<And>v. tidy (f v)"
  shows "tidy (and_then m f)"
  unfolding tidy_def
proof (intro allI impI)
  fix t t' r assume run: "and_then m f t = (t', r)"
  obtain t1 r1 where m1: "m t = (t1, r1)" by (cases "m t")
  from tidyD [OF m m1] obtain n1 where n1: "t1 = t @ n1" "filter is_net n1 = []"
    "\<forall>e. r1 = Inl e \<longrightarrow> n1 \<noteq> [] \<and> snd (last n1) = Raises e"
    by (elim exE conjE)
  show "\<exists>new. t' = t @ new \<and> filter is_net new = []
           \<and> (\<forall>e. r = Inl e \<longrightarrow> new \<noteq> [] \<and> snd (last new) = Raises e)"
  proof (cases r1)
    case (Inl e)
    with run m1 have "t' = t1" "r = Inl e" by (simp_all add: and_then_def)
    with n1 Inl have "t' = t @ n1" "filter is_net n1 = []"
      "\<forall>e. r = Inl e \<longrightarrow> n1 \<noteq> [] \<and> snd (last n1) = Raises e"
      by simp_all
    then show ?thesis by (intro exI [of _ n1] conjI)
  next
    case (Inr v)
    with run m1 have "f v t1 = (t', r)" by (simp add: and_then_def)
    from tidyD [OF f this] obtain n2 where n2: "t' = t1 @ n2" "filter is_net n2 = []"
      "\<forall>e. r = Inl e \<longrightarrow> n2 \<noteq> [] \<and> snd (last n2) = Raises e"
      by (elim exE conjE)
    have 1: "t' = t @ (n1 @ n2)" using n1(1) n2(1) by simp
    have 2: "filter is_net (n1 @ n2) = []" using n1(2) n2(2) by simp
    have 3: "\<forall>e. r = Inl e \<longrightarrow> n1 @ n2 \<noteq> [] \<and> snd (last (n1 @ n2)) = Raises e"
    proof (intro allI impI)
      fix e assume "r = Inl e"
      with n2(3) have "n2 \<noteq> []" "snd (last n2) = Raises e" by simp_all
      then show "n1 @ n2 \<noteq> [] \<and> snd (last (n1 @ n2)) = Raises e" by simp
    qed
    from 1 2 3 show ?thesis by (intro exI [of _ "n1 @ n2"] conjI)
  qed
qed

lemma tidy_analytic_body: "tidy (analytic_body dec k errors)"
  unfolding analytic_body_def
  by (auto intro!: tidy_and_then tidy_invoke tidy_done_with simp: split_beta)

lemma tidy_simulated_body: "tidy (simulated_body dec k errors)"
  unfolding simulated_body_def
  by (auto intro!: tidy_and_then tidy_invoke tidy_done_with)

lemma tidy_for_items:
  assumes "\<And>k errors. tidy (body k errors)"
  shows "tidy (for_items body items flips)"
  by (induction items arbitrary: flips)
     (auto intro!: tidy_and_then tidy_done_with assms)

lemma tidy_analytic_flips: "tidy (analytic_flips dec X_errors Z_errors)"
  unfolding analytic_flips_def by (intro tidy_for_items tidy_analytic_body)

lemma tidy_simulated_flips: "tidy (simulated_flips dec X_errors Z_errors)"
  unfolding simulated_flips_def by (intro tidy_for_items tidy_simulated_body)


lemma and_then_cases:
  assumes "and_then m f t = (t', r)"
  obtains (fail) e where "m t = (t', Inl e)" "r = Inl e"
        | (ok) t1 v where "m t = (t1, Inr v)" "f v t1 = (t', r)"
  using assms by (auto simp: and_then_def split: prod.splits sum.splits)

lemma for_items_two_ok:
  "for_items body [(k1, e1), (k2, e2)] [] tr = (tr', Inr flips) \<Longrightarrow>
     \<exists>t1 f1 f2. body k1 e1 tr = (t1, Inr f1) \<and> body k2 e2 t1 = (tr', Inr f2)
        \<and> flips = AList.update k2 f2 [(k1, f1)]"
  by (cases "body k1 e1 tr"; cases "snd (body k1 e1 tr)";
      cases "body k2 e2 (fst (body k1 e1 tr))"; cases "snd (body k2 e2 (fst (body k1 e1 tr)))")
     (auto simp: and_then_def done_with_def)

lemma loop_keys:
  assumes run: "for_items body (error_items X_errors Z_errors) [] tr = (tr', Inr flips)"
  shows "\<exists>flips_x flips_z. flips = [(''X'', flips_x), (''Z'', flips_z)]"
  using for_items_two_ok [OF run [unfolded error_items_def]] by auto

lemma print_net_X_Z:
  "print_net dec [(''X'', flips_x), (''Z'', flips_z)] t
     = (t @ [(NetQubitFlips [(''X'', flips_x), (''Z'', flips_z)],
              outcome_of (net_qubit_flips dec flips_x flips_z))],
        net_qubit_flips dec flips_x flips_z)"
  by (simp add: print_net_def getitem_def and_then_def done_with_def invoke_def)

text \<open>
  One decoder branch: the loop, then the print. Either a call of the loop raises, or the
  loop completes with both keys bound and \<^verbatim>\<open>net_qubit_flips\<close> is called on their
  values.
\<close>

lemma branch_cases:
  assumes loop: "tidy loop"
      and keys: "\<forall>t t' flips. loop t = (t', Inr flips) \<longrightarrow>
                   (\<exists>flips_x flips_z. flips = [(''X'', flips_x), (''Z'', flips_z)])"
      and run: "and_then loop (\<lambda>flips. and_then (print_net dec flips) rest) t = (t', r)"
  obtains (loop_raised) e new where "t' = t @ new" "r = Inl e" "filter is_net new = []"
            "new \<noteq> []" "snd (last new) = Raises e"
        | (net_raised) e new flips_x flips_z where
            "t' = t @ new @ [(NetQubitFlips [(''X'', flips_x), (''Z'', flips_z)], Raises e)]"
            "r = Inl e" "filter is_net new = []" "net_qubit_flips dec flips_x flips_z = Inl e"
        | (net_returned) new flips_x flips_z printed where
            "rest printed
               (t @ new @ [(NetQubitFlips [(''X'', flips_x), (''Z'', flips_z)], Returns)])
               = (t', r)"
            "filter is_net new = []" "net_qubit_flips dec flips_x flips_z = Inr printed"
  using run
proof (cases rule: and_then_cases)
  case (fail e)
  from tidyD [OF loop fail(1)] obtain new where "t' = t @ new" "filter is_net new = []"
    "new \<noteq> []" "snd (last new) = Raises e" by auto
  with fail(2) show ?thesis by (intro loop_raised)
next
  case (ok t1 flips)
  from tidyD [OF loop ok(1)] obtain new where new: "t1 = t @ new" "filter is_net new = []"
    by auto
  from keys [rule_format, OF ok(1)] obtain flips_x flips_z
    where flips: "flips = [(''X'', flips_x), (''Z'', flips_z)]" by auto
  from ok(2) show ?thesis
  proof (cases rule: and_then_cases)
    case (fail e)
    then have net: "net_qubit_flips dec flips_x flips_z = Inl e"
      by (simp add: flips print_net_X_Z)
    with fail(1) have
      "t' = t @ new @ [(NetQubitFlips [(''X'', flips_x), (''Z'', flips_z)], Raises e)]"
      by (simp add: flips print_net_X_Z new(1) outcome_of_def)
    with net fail(2) new(2) show ?thesis by (intro net_raised)
  next
    case (ok t2 printed)
    then have net: "net_qubit_flips dec flips_x flips_z = Inr printed"
      by (simp add: flips print_net_X_Z)
    with ok(1) have
      "t2 = t @ new @ [(NetQubitFlips [(''X'', flips_x), (''Z'', flips_z)], Returns)]"
      by (simp add: flips print_net_X_Z new(1) outcome_of_def)
    with net ok(2) new(2) show ?thesis by (intro net_returned) simp_all
  qed
qed


lemma no_net_member:
  "filter is_net new = [] \<Longrightarrow> (NetQubitFlips flips, out) \<notin> set new"
  by (auto simp: filter_empty_conv)

lemma keys_analytic_flips:
  "\<forall>t t' flips. analytic_flips dec X_errors Z_errors t = (t', Inr flips) \<longrightarrow>
     (\<exists>flips_x flips_z. flips = [(''X'', flips_x), (''Z'', flips_z)])"
  unfolding analytic_flips_def by (intro allI impI) (rule loop_keys)

lemma keys_simulated_flips:
  "\<forall>t t' flips. simulated_flips dec X_errors Z_errors t = (t', Inr flips) \<longrightarrow>
     (\<exists>flips_x flips_z. flips = [(''X'', flips_x), (''Z'', flips_z)])"
  unfolding simulated_flips_def by (intro allI impI) (rule loop_keys)

text \<open>
  Claim C10. In every execution of \<^verbatim>\<open>full_loop\<close>, whatever defects the two error
  types have: each call of \<^verbatim>\<open>net_qubit_flips\<close> finds the dict \<^verbatim>\<open>flips\<close> with
  exactly the keys \<^verbatim>\<open>"X"\<close> and \<^verbatim>\<open>"Z"\<close>, each bound to a flip map, and takes
  its two arguments from them; an exception that ends the execution is the one raised by
  the decoder method called last, so neither \<^verbatim>\<open>flips["X"]\<close> nor \<^verbatim>\<open>flips["Z"]\<close>
  raises \<^verbatim>\<open>KeyError\<close>; and an execution that completes has called
  \<^verbatim>\<open>net_qubit_flips\<close> exactly twice, once for each decoder, and prints what the two
  calls returned.
\<close>

theorem full_loop_flips_keys:
  assumes run: "full_loop decoder_simulated decoder_analytic X_errors Z_errors [] = (tr, r)"
  shows "(\<forall>flips out. (NetQubitFlips flips, out) \<in> set tr \<longrightarrow>
            (\<exists>flips_x flips_z. flips = [(''X'', flips_x), (''Z'', flips_z)]
               \<and> (out = outcome_of (net_qubit_flips decoder_analytic flips_x flips_z)
                    \<or> out = outcome_of (net_qubit_flips decoder_simulated flips_x flips_z))))
       \<and> (\<forall>e. r = Inl e \<longrightarrow> tr \<noteq> [] \<and> snd (last tr) = Raises e)
       \<and> (\<forall>printed_analytic printed_simulated.
            r = Inr (printed_analytic, printed_simulated) \<longrightarrow>
            (\<exists>flips_x flips_z flips_x' flips_z'.
               filter is_net tr
                 = [(NetQubitFlips [(''X'', flips_x), (''Z'', flips_z)], Returns),
                    (NetQubitFlips [(''X'', flips_x'), (''Z'', flips_z')], Returns)]
               \<and> net_qubit_flips decoder_analytic flips_x flips_z = Inr printed_analytic
               \<and> net_qubit_flips decoder_simulated flips_x' flips_z' = Inr printed_simulated))"
proof (cases rule: branch_cases [OF tidy_analytic_flips keys_analytic_flips
      run [unfolded full_loop_def], case_names loop_raised net_raised net_returned])
  case (loop_raised e new)
  then show ?thesis by (simp add: no_net_member)
next
  case (net_raised e new flips_x flips_z)
  then show ?thesis by (auto simp: no_net_member outcome_of_def)
next
  case analytic: (net_returned new flips_x flips_z printed)
  let ?ev = "(NetQubitFlips [(''X'', flips_x), (''Z'', flips_z)], Returns)"
  have ev: "snd ?ev = outcome_of (net_qubit_flips decoder_analytic flips_x flips_z)"
    by (simp add: analytic(3) outcome_of_def)
  show ?thesis
  proof (cases rule: branch_cases [OF tidy_simulated_flips keys_simulated_flips analytic(1),
        case_names loop_raised net_raised net_returned])
    case (loop_raised e new')
    with analytic(2,3) show ?thesis by (auto simp: no_net_member outcome_of_def)
  next
    case (net_raised e new' flips_x' flips_z')
    with analytic(2,3) show ?thesis by (auto simp: no_net_member outcome_of_def)
  next
    case (net_returned new' flips_x' flips_z' printed')
    with analytic(2,3) show ?thesis
      by (auto simp: no_net_member outcome_of_def done_with_def)
  qed
qed

text \<open>Two executions of the harness with the line decoders.\<close>

lemma run_full_loop_both:
  "full_loop line_simulated line_analytic [0, 2] [1, 3] []
     = ([(MakeErrorGraph ''X'', Returns), (MatchingGraph ''X'', Returns),
         (Matching ''X'', Returns), (CalculateQubitFlips ''X'', Returns),
         (MakeErrorGraph ''Z'', Returns), (MatchingGraph ''Z'', Returns),
         (Matching ''Z'', Returns), (CalculateQubitFlips ''Z'', Returns),
         (NetQubitFlips [(''X'', [(0, True), (1, True)]), (''Z'', [(1, True), (2, True)])],
          Returns),
         (MakeErrorGraph ''X'', Returns), (MatchingGraph ''X'', Returns),
         (Matching ''X'', Returns), (AnalyticPaths ''X'', Returns),
         (CalculateQubitFlips ''X'', Returns), (MakeErrorGraph ''Z'', Returns),
         (MatchingGraph ''Z'', Returns), (Matching ''Z'', Returns),
         (AnalyticPaths ''Z'', Returns), (CalculateQubitFlips ''Z'', Returns),
         (NetQubitFlips [(''X'', [(0, True), (1, True)]), (''Z'', [(1, True), (2, True)])],
          Returns)],
        Inr ([(0, ''X''), (1, ''Y''), (2, ''Z'')], [(0, ''X''), (1, ''Y''), (2, ''Z'')]))"
  by code_simp

lemma run_full_loop_odd:
  "full_loop line_simulated line_analytic [2, 5, 6] [1, 3] []
     = ([(MakeErrorGraph ''X'', Returns), (MatchingGraph ''X'', Returns),
         (Matching ''X'', Raises (Raised ''no perfect matching''))],
        Inl (Raised ''no perfect matching''))"
  by code_simp

text \<open>
  The line decoders on defects of both types, at 0 and 2 for X and at 1 and 3 for Z, and
  on three X defects, where the matching raises.
\<close>

theorem full_loop_flips_keys_witness:
  "full_loop line_simulated line_analytic [0, 2] [1, 3] []
     = ([(MakeErrorGraph ''X'', Returns), (MatchingGraph ''X'', Returns),
         (Matching ''X'', Returns), (CalculateQubitFlips ''X'', Returns),
         (MakeErrorGraph ''Z'', Returns), (MatchingGraph ''Z'', Returns),
         (Matching ''Z'', Returns), (CalculateQubitFlips ''Z'', Returns),
         (NetQubitFlips [(''X'', [(0, True), (1, True)]), (''Z'', [(1, True), (2, True)])],
          Returns),
         (MakeErrorGraph ''X'', Returns), (MatchingGraph ''X'', Returns),
         (Matching ''X'', Returns), (AnalyticPaths ''X'', Returns),
         (CalculateQubitFlips ''X'', Returns), (MakeErrorGraph ''Z'', Returns),
         (MatchingGraph ''Z'', Returns), (Matching ''Z'', Returns),
         (AnalyticPaths ''Z'', Returns), (CalculateQubitFlips ''Z'', Returns),
         (NetQubitFlips [(''X'', [(0, True), (1, True)]), (''Z'', [(1, True), (2, True)])],
          Returns)],
        Inr ([(0, ''X''), (1, ''Y''), (2, ''Z'')], [(0, ''X''), (1, ''Y''), (2, ''Z'')]))
   \<and> (\<exists>flips_x flips_z flips_x' flips_z'.
         filter is_net (fst (full_loop line_simulated line_analytic [0, 2] [1, 3] []))
           = [(NetQubitFlips [(''X'', flips_x), (''Z'', flips_z)], Returns),
              (NetQubitFlips [(''X'', flips_x'), (''Z'', flips_z')], Returns)]
         \<and> net_qubit_flips line_analytic flips_x flips_z
             = Inr [(0, ''X''), (1, ''Y''), (2, ''Z'')]
         \<and> net_qubit_flips line_simulated flips_x' flips_z'
             = Inr [(0, ''X''), (1, ''Y''), (2, ''Z'')])
   \<and> fst (full_loop line_simulated line_analytic [2, 5, 6] [1, 3] []) \<noteq> []
   \<and> snd (last (fst (full_loop line_simulated line_analytic [2, 5, 6] [1, 3] [])))
       = Raises (Raised ''no perfect matching'')"
proof -
  obtain tr where run: "full_loop line_simulated line_analytic [0, 2] [1, 3] []
      = (tr, Inr ([(0, ''X''), (1, ''Y''), (2, ''Z'')], [(0, ''X''), (1, ''Y''), (2, ''Z'')]))"
    using run_full_loop_both by blast
  then have tr: "tr = fst (full_loop line_simulated line_analytic [0, 2] [1, 3] [])"
    by simp
  note completes = full_loop_flips_keys [OF run, THEN conjunct2, THEN conjunct2,
      rule_format, OF refl]
  obtain tr' where run': "full_loop line_simulated line_analytic [2, 5, 6] [1, 3] []
      = (tr', Inl (Raised ''no perfect matching''))"
    using run_full_loop_odd by blast
  then have tr': "tr' = fst (full_loop line_simulated line_analytic [2, 5, 6] [1, 3] [])"
    by simp
  note raises = full_loop_flips_keys [OF run', THEN conjunct2, THEN conjunct1,
      rule_format, OF refl]
  note b = completes [unfolded tr]
  note c = raises [unfolded tr']
  show ?thesis
    by (rule conjI [OF run_full_loop_both conjI [OF b conjI [OF c [THEN conjunct1]
          c [THEN conjunct2]]]])
qed

section \<open>Properties of the stabilized circuit\<close>

lemma local_to_done_with: "local_to circ (done_with r)"
  by (simp add: local_to_def done_with_def)

lemma local_to_and_then:
  assumes "local_to circ m" and "\<And>v. local_to circ (f v)"
  shows "local_to circ (and_then m f)"
  unfolding local_to_def
proof (intro allI impI)
  fix s s' r assume run: "and_then m f s = (s', r)"
  obtain s1 r1 where m: "m s = (s1, r1)" by (cases "m s")
  from assms(1) m have 1: "length s1 = length s" "\<forall>j. j \<noteq> circ \<longrightarrow> s1 ! j = s ! j"
    by (auto simp: local_to_def)
  show "length s' = length s \<and> (\<forall>j. j \<noteq> circ \<longrightarrow> s' ! j = s ! j)"
  proof (cases r1)
    case (Inl e)
    with run m have "s' = s1" by (simp add: and_then_def)
    with 1 show ?thesis by simp
  next
    case (Inr v)
    with run m have "f v s1 = (s', r)" by (simp add: and_then_def)
    with assms(2) [of v] have "length s' = length s1" "\<forall>j. j \<noteq> circ \<longrightarrow> s' ! j = s1 ! j"
      by (auto simp: local_to_def)
    with 1 show ?thesis by simp
  qed
qed

lemma local_to_each_do:
  assumes "\<And>x. local_to circ (body x)"
  shows "local_to circ (each_do body xs)"
  by (induction xs) (simp_all add: local_to_done_with local_to_and_then assms)

lemma local_to_append_c: "local_to circ (append_c circ ins)"
  by (auto simp: local_to_def append_c_def split: if_splits)

lemma local_to_barrier: "local_to circ (barrier circ)"
  using local_to_append_c [of circ]
  by (auto simp: local_to_def barrier_def split: if_splits)

lemma local_to_measure_c: "local_to circ (measure_c circ qs bs)"
  unfolding measure_c_def
  by (auto intro!: local_to_each_do local_to_done_with local_to_append_c)

lemma local_to_reset: "local_to circ (reset circ qs)"
  unfolding reset_def by (intro local_to_each_do local_to_append_c)

lemma local_to_block:
  "list_all (local_to circ) steps \<Longrightarrow> local_to circ (block steps)"
  unfolding block_def
  by (induction steps) (simp_all add: local_to_done_with local_to_and_then)

lemma local_to_stabilize: "local_to circ (stabilize circ i)"
  unfolding stabilize_def
  by (rule local_to_block)
     (simp add: h_def cx_def local_to_append_c local_to_barrier local_to_reset
        local_to_measure_c local_to_and_then local_to_done_with)

lemma get_stabilized_circ_frame:
  assumes base: "base_circuit < length s"
      and run: "get_stabilized_circ base_circuit rounds' s = (s', r)"
  shows "take (length s) s' = s \<and> (\<forall>circ. r = Inr circ \<longrightarrow> circ = length s \<and> circ < length s')"
proof -
  let ?s1 = "s @ [s ! base_circuit]"
  let ?rest = "and_then (each_do (stabilize (length s)) [0 ..< nat (rounds' + 1)])
                 (\<lambda>_. done_with (Inr (length s)))"
  from run base have rest: "?rest ?s1 = (s', r)"
    by (simp add: get_stabilized_circ_def copy_def and_then_def)
  have "local_to (length s) ?rest"
    by (intro local_to_and_then local_to_each_do local_to_stabilize local_to_done_with)
  with rest have len: "length s' = length ?s1" and same: "\<forall>j. j \<noteq> length s \<longrightarrow> s' ! j = ?s1 ! j"
    unfolding local_to_def by blast+
  have "take (length s) s' = s"
  proof (rule nth_equalityI)
    show "length (take (length s) s') = length s" using len by simp
    fix j assume "j < length (take (length s) s')"
    then have j: "j < length s" by simp
    with same have "s' ! j = ?s1 ! j" by simp
    with j show "take (length s) s' ! j = s ! j" by (simp add: nth_append)
  qed
  moreover have "circ = length s \<and> circ < length s'" if "r = Inr circ" for circ
  proof -
    obtain s2 r2 where e: "each_do (stabilize (length s)) [0 ..< nat (rounds' + 1)] ?s1 = (s2, r2)"
      by (cases "each_do (stabilize (length s)) [0 ..< nat (rounds' + 1)] ?s1")
    with rest that have "circ = length s"
      by (cases r2) (simp_all add: and_then_def done_with_def)
    with len show ?thesis by simp
  qed
  ultimately show ?thesis by blast
qed


lemma qregs_add_all [simp]: "qregs (add_all c xs) = qregs c"
  and cregs_add_all [simp]: "cregs (add_all c xs) = cregs c"
  and instructions_add_all [simp]: "instructions (add_all c xs) = instructions c @ xs"
  by (simp_all add: add_all_def)

lemma add_all_add_all [simp]: "add_all (add_all c xs) ys = add_all c (xs @ ys)"
  by (simp add: add_all_def)

lemma add_all_Nil [simp]: "add_all c [] = c"
  by (simp add: add_all_def)

lemma has_qubit_add_all [simp]: "has_qubit (add_all c xs) q = has_qubit c q"
  by (cases q) simp

lemma has_clbit_add_all [simp]: "has_clbit (add_all c xs) b = has_clbit c b"
  by (cases b) simp

lemma accepts_add_all [simp]: "accepts (add_all c xs) ins = accepts c ins"
  by (cases ins) (simp_all add: list_all_iff)

lemma append_c_ok:
  "circ < length s \<Longrightarrow> accepts (s ! circ) ins \<Longrightarrow>
     append_c circ ins s = (s[circ := add_all (s ! circ) [ins]], Inr ())"
  by (simp add: append_c_def add_all_def)

lemma each_append_ok:
  "circ < length s \<Longrightarrow> list_all (accepts (s ! circ)) xs \<Longrightarrow>
     each_do (append_c circ) xs s = (s[circ := add_all (s ! circ) xs], Inr ())"
proof (induction xs arbitrary: s)
  case Nil
  then show ?case by (simp add: done_with_def)
next
  case (Cons x xs)
  let ?s1 = "s[circ := add_all (s ! circ) [x]]"
  from Cons.prems have 1: "append_c circ x s = (?s1, Inr ())"
    by (simp add: append_c_ok)
  from Cons.prems have "each_do (append_c circ) xs ?s1 = (?s1[circ := add_all (?s1 ! circ) xs], Inr ())"
    by (intro Cons.IH) simp_all
  with 1 Cons.prems show ?case by (simp add: and_then_def)
qed

lemma has_qubit_qubits_of:
  "reg \<in> set (qregs c) \<Longrightarrow> list_all (has_qubit c) (qubits_of reg)"
  by (simp add: qubits_of_def list_all_iff)

lemma barrier_ok:
  "circ < length s \<Longrightarrow>
     barrier circ s
       = (s[circ := add_all (s ! circ) [Barrier (concat (map qubits_of (qregs (s ! circ))))]], Inr ())"
proof -
  assume c: "circ < length s"
  have "list_all (has_qubit (s ! circ)) (concat (map qubits_of (qregs (s ! circ))))"
    using has_qubit_qubits_of [of _ "s ! circ"] by (auto simp: list_all_iff)
  with c show ?thesis by (simp add: barrier_def append_c_ok)
qed

lemma reset_ok:
  "circ < length s \<Longrightarrow> reg \<in> set (qregs (s ! circ)) \<Longrightarrow>
     reset circ (qubits_of reg) s = (s[circ := add_all (s ! circ) (map Reset (qubits_of reg))], Inr ())"
proof -
  assume c: "circ < length s" and r: "reg \<in> set (qregs (s ! circ))"
  have e: "each_do (\<lambda>q. append_c circ (Reset q)) qs = each_do (append_c circ) (map Reset qs)" for qs
    by (induction qs) simp_all
  from has_qubit_qubits_of [OF r]
  have "list_all (accepts (s ! circ)) (map Reset (qubits_of reg))"
    by (simp add: list_all_iff)
  with c show ?thesis by (simp add: reset_def e each_append_ok)
qed

lemma measure_c_ok:
  assumes c: "circ < length s" and l: "length qs = length bs"
      and q: "list_all (has_qubit (s ! circ)) qs" and b: "list_all (has_clbit (s ! circ)) bs"
  shows "measure_c circ qs bs s
       = (s[circ := add_all (s ! circ) (map (\<lambda>(q, b). Measure q b) (zip qs bs))], Inr ())"
proof -
  have e: "each_do (\<lambda>(q, b). append_c circ (Measure q b)) ps
             = each_do (append_c circ) (map (\<lambda>(q, b). Measure q b) ps)" for ps
    by (induction ps) auto
  have "list_all (accepts (s ! circ)) (map (\<lambda>(q, b). Measure q b) (zip qs bs))"
    using q b set_zip_leftD [of _ _ qs bs] set_zip_rightD [of _ _ qs bs]
    by (fastforce simp: list_all_iff)
  with c l show ?thesis by (simp add: measure_c_def e each_append_ok)
qed

lemma slice_measurements:
  "i < length measurements \<Longrightarrow> reg = measurements ! i \<Longrightarrow>
     length (slice reg 0 4) = 4 \<and> length (slice reg 4 8) = 4 \<and> snd reg = 8"
  by (auto simp: measurements_def slice_def nth_Cons' split: if_splits)

lemma has_clbit_slice:
  "reg \<in> set (cregs c) \<Longrightarrow> list_all (has_clbit c) (slice reg a b)"
  by (simp add: slice_def list_all_iff)


lemma stabilize_ok:
  assumes c: "circ < length s" and regs: "has_registers (s ! circ)"
      and i: "i < length measurements"
  shows "stabilize circ i s
           = (s[circ := add_all (s ! circ) (stabilization_round (s ! circ) i)], Inr ())"
proof -
  from regs have q: "data \<in> set (qregs (s ! circ))" "mx \<in> set (qregs (s ! circ))"
      "mz \<in> set (qregs (s ! circ))"
    and m: "measurements ! i \<in> set (cregs (s ! circ))"
    using i by (auto simp: has_registers_def)
  note sl = slice_measurements [OF i refl]
  have qs: "length (qubits_of mz) = 4" "length (qubits_of mx) = 4"
    by (simp_all add: qubits_of_def mz_def mx_def)
  have sizes: "snd mx = 4" "snd mz = 4" "snd data = 9" "mx \<noteq> data" "mx \<noteq> mz" "data \<noteq> mz"
    by (simp_all add: mx_def mz_def data_def)
  show ?thesis
    unfolding stabilize_def block_def
    using c q m sl qs sizes i
    by (simp add: and_then_def done_with_def h_def cx_def append_c_ok barrier_ok
          reset_ok measure_c_ok index_def has_qubit_qubits_of has_clbit_slice
          stabilization_round_def stabilizer_gates_def)
qed


lemma has_registers_add_all [simp]: "has_registers (add_all c xs) = has_registers c"
  by (simp add: has_registers_def)

lemma stabilization_round_add_all [simp]:
  "stabilization_round (add_all c xs) = stabilization_round c"
  by (rule ext) (simp add: stabilization_round_def)

lemma rounds_ok:
  assumes c: "circ < length s" and regs: "has_registers (s ! circ)"
      and idx: "\<forall>i \<in> set ixs. i < length measurements"
  shows "each_do (stabilize circ) ixs s
           = (s[circ := add_all (s ! circ) (concat (map (stabilization_round (s ! circ)) ixs))],
              Inr ())"
  using assms
proof (induction ixs arbitrary: s)
  case Nil
  then show ?case by (simp add: done_with_def)
next
  case (Cons i ixs)
  let ?s1 = "s[circ := add_all (s ! circ) (stabilization_round (s ! circ) i)]"
  from Cons.prems have 1: "stabilize circ i s = (?s1, Inr ())"
    by (simp add: stabilize_ok)
  from Cons.prems have
    "each_do (stabilize circ) ixs ?s1
       = (?s1[circ := add_all (?s1 ! circ) (concat (map (stabilization_round (?s1 ! circ)) ixs))],
          Inr ())"
    by (intro Cons.IH) simp_all
  with 1 Cons.prems show ?case by (simp add: and_then_def)
qed

lemma get_stabilized_circ_ok:
  assumes base: "base_circuit < length s" and regs: "has_registers (s ! base_circuit)"
      and r: "rounds' + 1 \<le> int (length measurements)"
  shows "get_stabilized_circ base_circuit rounds' s
           = (s @ [add_all (s ! base_circuit)
                     (concat (map (stabilization_round (s ! base_circuit))
                        [0 ..< nat (rounds' + 1)]))],
              Inr (length s))"
proof -
  let ?s1 = "s @ [s ! base_circuit]"
  have "each_do (stabilize (length s)) [0 ..< nat (rounds' + 1)] ?s1
          = (?s1[length s := add_all (?s1 ! length s)
                   (concat (map (stabilization_round (?s1 ! length s)) [0 ..< nat (rounds' + 1)]))],
             Inr ())"
    using regs r by (intro rounds_ok) auto
  with base show ?thesis
    by (simp add: get_stabilized_circ_def copy_def and_then_def done_with_def)
qed

lemma each_do_append:
  "each_do body (xs @ ys) s = and_then (each_do body xs) (\<lambda>_. each_do body ys) s"
  by (induction xs arbitrary: s)
     (simp_all add: and_then_def done_with_def split: prod.splits sum.splits)

lemma stabilize_index_error:
  assumes c: "circ < length s" and regs: "has_registers (s ! circ)"
      and i: "\<not> i < length measurements"
  shows "snd (stabilize circ i s) = Inl IndexError"
proof -
  from regs have q: "data \<in> set (qregs (s ! circ))" "mx \<in> set (qregs (s ! circ))"
      "mz \<in> set (qregs (s ! circ))"
    by (auto simp: has_registers_def)
  have sizes: "snd mx = 4" "snd mz = 4" "snd data = 9" "mx \<noteq> data" "mx \<noteq> mz" "data \<noteq> mz"
    by (simp_all add: mx_def mz_def data_def)
  show ?thesis
    unfolding stabilize_def block_def
    using c q sizes i
    by (simp add: and_then_def done_with_def h_def cx_def append_c_ok barrier_ok index_def)
qed

lemma upt_split_at:
  assumes nm: "(n::nat) < m"
  shows "[0 ..< m] = [0 ..< n] @ n # [Suc n ..< m]"
proof -
  from nm obtain k where k: "m = n + k" using less_imp_add_positive by blast
  have "[0 ..< n + k] = [0 ..< n] @ [n ..< n + k]"
    by (rule upt_add_eq_append) simp
  then have "[0 ..< m] = [0 ..< n] @ [n ..< m]" by (simp only: k)
  with nm show ?thesis by (simp only: upt_conv_Cons)
qed

lemma rounds_then_index_error:
  assumes c: "circ < length s" and regs: "has_registers (s ! circ)"
  shows "snd (each_do (stabilize circ) ([0 ..< length measurements] @ length measurements # rest) s)
           = Inl IndexError"
proof -
  let ?n = "length measurements"
  let ?s2 = "s[circ := add_all (s ! circ) (concat (map (stabilization_round (s ! circ)) [0 ..< ?n]))]"
  have ok: "each_do (stabilize circ) [0 ..< ?n] s = (?s2, Inr ())"
    using c regs by (intro rounds_ok) auto
  have "snd (stabilize circ ?n ?s2) = Inl IndexError"
    using c regs by (intro stabilize_index_error) simp_all
  then obtain s3 where fail: "stabilize circ ?n ?s2 = (s3, Inl IndexError)"
    by (cases "stabilize circ ?n ?s2") simp
  have "each_do (stabilize circ) ([0 ..< ?n] @ ?n # rest) s
          = and_then (each_do (stabilize circ) [0 ..< ?n])
              (\<lambda>_. each_do (stabilize circ) (?n # rest)) s"
    by (rule each_do_append)
  also have "\<dots> = each_do (stabilize circ) (?n # rest) ?s2"
    by (simp only: and_then_def ok prod.case sum.case)
  also have "\<dots> = (s3, Inl IndexError)"
    by (simp only: each_do.simps and_then_def fail prod.case sum.case)
  finally show ?thesis by simp
qed

lemma get_stabilized_circ_raises:
  assumes base: "base_circuit < length s" and regs: "has_registers (s ! base_circuit)"
      and r: "int (length measurements) < rounds' + 1"
  shows "snd (get_stabilized_circ base_circuit rounds' s) = Inl IndexError"
proof -
  let ?s1 = "s @ [s ! base_circuit]"
  let ?n = "length measurements"
  from r have nm: "?n < nat (rounds' + 1)" by linarith
  have "snd (each_do (stabilize (length s))
               ([0 ..< ?n] @ ?n # [Suc ?n ..< nat (rounds' + 1)]) ?s1) = Inl IndexError"
    using regs by (intro rounds_then_index_error) simp_all
  then have "snd (each_do (stabilize (length s)) [0 ..< nat (rounds' + 1)] ?s1) = Inl IndexError"
    by (simp only: upt_split_at [OF nm, symmetric])
  then obtain s3 where loop: "each_do (stabilize (length s)) [0 ..< nat (rounds' + 1)] ?s1
      = (s3, Inl IndexError)"
    by (cases "each_do (stabilize (length s)) [0 ..< nat (rounds' + 1)] ?s1") simp
  from base have "copy base_circuit s = (?s1, Inr (length s))"
    by (simp add: copy_def)
  then have "get_stabilized_circ base_circuit rounds' s = (s3, Inl IndexError)"
    by (simp only: get_stabilized_circ_def and_then_def loop prod.case sum.case)
  then show ?thesis by simp
qed

lemma has_registers_base_circ: "has_registers base_circ"
  by (simp add: has_registers_def base_circ_def)

text \<open>
  Claim C9, as amended. Whatever the base circuit and the round count, and also when the
  call raises, \<^verbatim>\<open>get_stabilized_circ\<close> leaves the base circuit and every other
  circuit that existed before the call as it was, and a circuit it returns is a new one.
  When the base circuit has the registers \<^verbatim>\<open>data\<close>, \<^verbatim>\<open>mx\<close>, \<^verbatim>\<open>mz\<close> and the
  notebook's measurement registers, and \<^verbatim>\<open>rounds + 1\<close> is at most their number, the
  call returns a copy of the base circuit with one stabilization round appended for each
  \<open>i\<close> in \<^verbatim>\<open>range(rounds + 1)\<close>.
\<close>

theorem get_stabilized_circ_copies:
  "(base_circuit < length s \<and> get_stabilized_circ base_circuit rounds' s = (s', r) \<longrightarrow>
      take (length s) s' = s \<and> s' ! base_circuit = s ! base_circuit
      \<and> (\<forall>circ. r = Inr circ \<longrightarrow> circ = length s \<and> circ < length s'))
   \<and> (base_circuit < length s \<and> has_registers (s ! base_circuit)
        \<and> rounds' + 1 \<le> int (length measurements) \<longrightarrow>
      get_stabilized_circ base_circuit rounds' s
        = (s @ [add_all (s ! base_circuit)
                  (concat (map (stabilization_round (s ! base_circuit))
                     [0 ..< nat (rounds' + 1)]))],
           Inr (length s)))"
proof -
  have frame: "take (length s) s' = s \<and> s' ! base_circuit = s ! base_circuit
      \<and> (\<forall>circ. r = Inr circ \<longrightarrow> circ = length s \<and> circ < length s')"
    if base: "base_circuit < length s"
      and run: "get_stabilized_circ base_circuit rounds' s = (s', r)"
  proof -
    note f = get_stabilized_circ_frame [OF base run]
    from f have "take (length s) s' ! base_circuit = s ! base_circuit" by simp
    with base have "s' ! base_circuit = s ! base_circuit" by simp
    with f show ?thesis by blast
  qed
  from frame get_stabilized_circ_ok [of base_circuit s rounds'] show ?thesis by blast
qed

text \<open>The notebook's own call, \<^verbatim>\<open>get_stabilized_circ(base_circ, rounds)\<close>.\<close>

theorem get_stabilized_circ_copies_witness:
  "has_registers base_circ \<and> rounds + 1 \<le> int (length measurements)
   \<and> get_stabilized_circ 0 rounds [base_circ]
       = ([base_circ,
           add_all base_circ (concat (map (stabilization_round base_circ) [0 ..< nat (rounds + 1)]))],
          Inr 1)"
proof -
  have r: "rounds + 1 \<le> int (length measurements)"
    by (simp add: rounds_def measurements_def)
  have pre: "0 < length [base_circ] \<and> has_registers ([base_circ] ! 0)
      \<and> rounds + 1 \<le> int (length measurements)"
    using has_registers_base_circ r by (simp only: nth_Cons_0 length_Cons list.size(3)) simp
  have shape: "([base_circ] @ [c], Inr (length [base_circ])) = ([base_circ, c], Inr 1)" for c :: circuit
    by simp
  from mp [OF get_stabilized_circ_copies [of 0 "[base_circ]" rounds, THEN conjunct2] pre]
  have "get_stabilized_circ 0 rounds [base_circ]
       = ([base_circ,
           add_all base_circ (concat (map (stabilization_round base_circ) [0 ..< nat (rounds + 1)]))],
          Inr 1)"
    by (simp only: nth_Cons_0 shape)
  with has_registers_base_circ r show ?thesis by (intro conjI)
qed

text \<open>
  Claim C9 as stated fails for two inputs. With one round more than the notebook's three
  measurement registers allow, \<^verbatim>\<open>measurements[3]\<close> raises; and on a base circuit
  without registers the first gate of \<^verbatim>\<open>stabilize\<close> raises. In neither case is a
  circuit returned.
\<close>

theorem get_stabilized_circ_counterexample:
  "snd (get_stabilized_circ 0 3 [base_circ]) = Inl IndexError
   \<and> snd (get_stabilized_circ 0 0 [\<lparr>qregs = [], cregs = [], instructions = []\<rparr>])
       = Inl CircuitError"
proof -
  have "snd (get_stabilized_circ 0 3 [base_circ]) = Inl IndexError"
    using get_stabilized_circ_raises [of 0 "[base_circ]" 3] has_registers_base_circ
    by (simp add: measurements_def)
  moreover
  have "snd (get_stabilized_circ 0 0 [\<lparr>qregs = [], cregs = [], instructions = []\<rparr>])
          = Inl CircuitError"
    by (simp add: get_stabilized_circ_def copy_def and_then_def stabilize_def block_def
          h_def append_c_def)
  ultimately show ?thesis by (intro conjI)
qed

section \<open>Properties of the flip calculator and of the error rate\<close>

lemma flipped_flip:
  "flipped (flip q flips) q' = (if q' = q then \<not> flipped flips q' else flipped flips q')"
  by (simp add: flipped_def flip_def update_conv' split: option.splits)

lemma flipped_apply_chain:
  "flipped (apply_chain chain flips) q = (flipped flips q \<noteq> odd (count_list chain q))"
  unfolding apply_chain_def
  by (induction chain arbitrary: flips) (auto simp: flipped_flip)

lemma distinct_flip: "distinct (map fst flips) \<Longrightarrow> distinct (map fst (flip q flips))"
  by (simp add: flip_def distinct_update)

lemma distinct_apply_chain:
  "distinct (map fst flips) \<Longrightarrow> distinct (map fst (apply_chain chain flips))"
  unfolding apply_chain_def
  by (induction chain arbitrary: flips) (simp_all add: distinct_flip)

lemma accumulate_flips_parity:
  "accumulate_flips matches paths flips = Inr flips' \<Longrightarrow>
     flipped flips' q = (flipped flips q \<noteq> odd (touches matches paths q))"
proof (induction matches arbitrary: flips)
  case Nil
  then show ?case by (simp add: touches_def)
next
  case (Cons pair matches)
  then obtain chain where c: "map_of paths pair = Some chain"
    and rest: "accumulate_flips matches paths (apply_chain chain flips) = Inr flips'"
    by (auto split: option.splits)
  from Cons.IH [OF rest] have
    "flipped flips' q = (flipped (apply_chain chain flips) q \<noteq> odd (touches matches paths q))" .
  then show ?case
    using c by (auto simp: flipped_apply_chain touches_def)
qed

lemma accumulate_flips_distinct:
  "accumulate_flips matches paths flips = Inr flips' \<Longrightarrow> distinct (map fst flips) \<Longrightarrow>
     distinct (map fst flips')"
  by (induction matches arbitrary: flips) (auto split: option.splits intro: distinct_apply_chain)

lemma accumulate_flips_total:
  "\<forall>pair \<in> set matches. map_of paths pair \<noteq> None \<Longrightarrow>
     \<exists>flips'. accumulate_flips matches paths flips = Inr flips'"
  by (induction matches arbitrary: flips) auto

text \<open>
  Claim C6. The flip map that \<^verbatim>\<open>calculate_qubit_flips\<close> returns marks a qubit as
  flipped exactly when the chains of the matched pairs touch it an odd number of times, so
  a qubit touched an even number of times nets to no flip; applying the same chain twice
  leaves every qubit's flip as it was; and the calculation returns whenever every matched
  pair has a chain.
\<close>

theorem flips_are_xor_parity:
  "(calculate_qubit_flips_spec matches paths = Inr flips \<longrightarrow>
      (\<forall>q. flipped flips q \<longleftrightarrow> odd (touches matches paths q)) \<and> distinct (map fst flips))
   \<and> (\<forall>q. flipped (apply_chain chain (apply_chain chain flips0)) q = flipped flips0 q)
   \<and> ((\<forall>pair \<in> set matches. map_of paths pair \<noteq> None) \<longrightarrow>
        (\<exists>flips'. calculate_qubit_flips_spec matches paths = Inr flips'))"
proof (intro conjI impI allI)
  assume r: "calculate_qubit_flips_spec matches paths = Inr flips"
  show "distinct (map fst flips)"
    using accumulate_flips_distinct [OF r [unfolded calculate_qubit_flips_spec_def]] by simp
  fix q
  show "flipped flips q \<longleftrightarrow> odd (touches matches paths q)"
    using accumulate_flips_parity [OF r [unfolded calculate_qubit_flips_spec_def], of q]
    by (simp add: flipped_def)
next
  fix q
  show "flipped (apply_chain chain (apply_chain chain flips0)) q = flipped flips0 q"
    by (auto simp: flipped_apply_chain)
next
  assume "\<forall>pair \<in> set matches. map_of paths pair \<noteq> None"
  then show "\<exists>flips'. calculate_qubit_flips_spec matches paths = Inr flips'"
    unfolding calculate_qubit_flips_spec_def by (rule accumulate_flips_total)
qed


lemma count_mismatches_le:
  "count_mismatches corrected expected histogram = Inr n \<Longrightarrow> n \<le> total_shots histogram"
  unfolding total_shots_def
  by (induction histogram arbitrary: n) (auto split: sum.splits if_splits)

lemma count_mismatches_total:
  "\<forall>oc \<in> set histogram. \<exists>v. corrected (fst oc) = Inr v \<Longrightarrow>
     \<exists>n. count_mismatches corrected expected histogram = Inr n"
  by (induction histogram) (auto split: sum.splits)

text \<open>
  Claim C8. Whatever the histogram, the expected value and the pipeline, a rate that
  \<^verbatim>\<open>logical_error_rate\<close> returns lies between 0 and 1; and it returns one whenever
  every sample decodes and the histogram holds at least one shot.
\<close>

theorem logical_error_rate_in_unit_interval:
  "(logical_error_rate_spec corrected histogram expected = Inr rate \<longrightarrow> 0 \<le> rate \<and> rate \<le> 1)
   \<and> ((\<forall>oc \<in> set histogram. \<exists>v. corrected (fst oc) = Inr v) \<and> 0 < total_shots histogram \<longrightarrow>
        (\<exists>rate'. logical_error_rate_spec corrected histogram expected = Inr rate'))"
proof -
  have bounds: "0 \<le> rate \<and> rate \<le> 1"
    if r: "logical_error_rate_spec corrected histogram expected = Inr rate"
  proof -
    from r obtain n where n: "count_mismatches corrected expected histogram = Inr n"
      and pos: "total_shots histogram \<noteq> 0"
      and rate: "rate = of_nat n / of_nat (total_shots histogram)"
      by (auto simp: logical_error_rate_spec_def split: sum.splits if_splits)
    from count_mismatches_le [OF n] have "(of_nat n :: rat) \<le> of_nat (total_shots histogram)"
      by simp
    moreover from pos have "(0::rat) < of_nat (total_shots histogram)" by simp
    ultimately show ?thesis by (simp add: rate)
  qed
  have returns: "\<exists>rate'. logical_error_rate_spec corrected histogram expected = Inr rate'"
    if "\<forall>oc \<in> set histogram. \<exists>v. corrected (fst oc) = Inr v" and "0 < total_shots histogram"
    using count_mismatches_total [OF that(1), of expected] that(2)
    by (auto simp: logical_error_rate_spec_def)
  from bounds returns show ?thesis by blast
qed

text \<open>Two matched pairs whose chains overlap on qubit 3.\<close>

theorem flips_are_xor_parity_witness:
  "calculate_qubit_flips_spec [(1::nat, 4::nat), (3, 6)]
       [((1, 4), [1::nat, 2, 3]), ((3, 6), [3, 4, 5])]
     = Inr [(1, True), (2, True), (3, False), (4, True), (5, True)]
   \<and> (flipped [(1::nat, True), (2, True), (3, False), (4, True), (5, True)] 3
        \<longleftrightarrow> odd (touches [(1::nat, 4::nat), (3, 6)]
                       [((1, 4), [1::nat, 2, 3]), ((3, 6), [3, 4, 5])] 3))
   \<and> distinct (map fst [(1::nat, True), (2, True), (3, False), (4, True), (5, True)])
   \<and> flipped (apply_chain [1::nat, 2, 3] (apply_chain [1, 2, 3] [])) 2 = flipped [] (2::nat)"
proof -
  let ?M = "[(1::nat, 4::nat), (3, 6)]"
  let ?P = "[((1::nat, 4::nat), [1::nat, 2, 3]), ((3, 6), [3, 4, 5])]"
  let ?F = "[(1::nat, True), (2, True), (3, False), (4, True), (5, True)]"
  have run: "calculate_qubit_flips_spec ?M ?P = Inr ?F"
    by (simp add: calculate_qubit_flips_spec_def apply_chain_def flip_def)
  note th = flips_are_xor_parity [of ?M ?P ?F "[1::nat, 2, 3]" "[]"]
  note parity = mp [OF th [THEN conjunct1] run]
  note twice = th [THEN conjunct2, THEN conjunct1]
  from run parity [THEN conjunct1, THEN spec, of 3] parity [THEN conjunct2]
    twice [THEN spec, of 2]
  show ?thesis by (intro conjI)
qed

text \<open>Forty shots, ten of them with the logical readout flipped and nothing corrected.\<close>

theorem logical_error_rate_in_unit_interval_witness:
  "logical_error_rate_spec raw_readout
       [(''0 00000000 00000000'', 30), (''1 00000000 00000000'', 10)] 0 = Inr (1 / 4)
   \<and> (0::rat) \<le> 1 / 4 \<and> (1 / 4 :: rat) \<le> 1"
proof -
  have run: "logical_error_rate_spec raw_readout
       [(''0 00000000 00000000'', 30), (''1 00000000 00000000'', 10)] 0 = Inr (1 / 4)"
    by code_simp
  from logical_error_rate_in_unit_interval [of raw_readout
      "[(''0 00000000 00000000'', 30), (''1 00000000 00000000'', 10)]" 0 "1 / 4"] run
  show ?thesis by blast
qed

end
